theory Spec2Isabelle
  imports Main "HOL-Library.Word" "HOL-Library.AList"
begin

unbundle bit_operations_syntax

section \<open>The regular expressions of \<open>slack.ts\<close>\<close>

text \<open>
  Both \<open>cast\<close> methods call \<open>text.match\<close> with a regular expression literal that has no
  flags. The literals use four constructs only: the assertions \<open>^\<close> and \<open>$\<close>, a literal
  character, and a capturing group around a greedy \<open>+\<close> over a negated one-character
  class. The model is a backtracking matcher for exactly these constructs. A JavaScript
  string is a sequence of code units and, without the \<open>u\<close> and \<open>i\<close> flags, a literal and a
  negated class each look at one code unit; a \<open>char\<close> stands for a code unit here.
\<close>

datatype atom =
    Lit char      \<comment> \<open>a literal character\<close>
  | NotLit char   \<comment> \<open>the class \<open>[^c]\<close>: any character but \<open>c\<close>, line terminators included\<close>

datatype node =
    Bol               \<comment> \<open>\<open>^\<close> without the \<open>m\<close> flag: the start of the input\<close>
  | Eol               \<comment> \<open>\<open>$\<close> without the \<open>m\<close> flag: the end of the input\<close>
  | Atom atom
  | CapturePlus atom  \<comment> \<open>\<open>(a+)\<close>: a capturing group, one or more, greedy\<close>

fun atom_matches :: "atom \<Rightarrow> char \<Rightarrow> bool" where
  "atom_matches (Lit c) x = (x = c)"
| "atom_matches (NotLit c) x = (x \<noteq> c)"

text \<open>The first alternative that succeeds, in the order the matcher tries them.\<close>

primrec first_some :: "('a \<Rightarrow> 'b option) \<Rightarrow> 'a list \<Rightarrow> 'b option" where
  "first_some f [] = None"
| "first_some f (x # xs) = (case f x of Some y \<Rightarrow> Some y | None \<Rightarrow> first_some f xs)"

text \<open>
  \<open>rmatch ns i s\<close> matches the nodes \<open>ns\<close> against the rest \<open>s\<close> of the input, which starts
  at index \<open>i\<close> of the whole input. It returns the index where the match ends and the
  captures in the order of their groups. A greedy \<open>+\<close> takes the longest run first and
  gives characters back one at a time until what follows matches.
\<close>

fun rmatch :: "node list \<Rightarrow> nat \<Rightarrow> string \<Rightarrow> (nat \<times> string list) option" where
  "rmatch [] i s = Some (i, [])"
| "rmatch (Bol # ns) i s = (if i = 0 then rmatch ns i s else None)"
| "rmatch (Eol # ns) i s = (if s = [] then rmatch ns i s else None)"
| "rmatch (Atom a # ns) i s =
     (case s of
        [] \<Rightarrow> None
      | c # cs \<Rightarrow> if atom_matches a c then rmatch ns (Suc i) cs else None)"
| "rmatch (CapturePlus a # ns) i s =
     (let n = length (takeWhile (atom_matches a) s)
      in first_some
           (\<lambda>k. case rmatch ns (i + k) (drop k s) of
                  None \<Rightarrow> None
                | Some (e, gs) \<Rightarrow> Some (e, take k s # gs))
           (rev [1..<Suc n]))"

text \<open>
  \<open>String.prototype.match\<close> with a regular expression that is not global: the first start
  index, from the left, at which the expression matches; the result holds the matched
  text at index 0 and the captures after it, and is \<open>null\<close> (here \<open>None\<close>) when no start
  index matches.
\<close>

definition string_match :: "node list \<Rightarrow> string \<Rightarrow> string list option" where
  "string_match r text =
     first_some
       (\<lambda>i. case rmatch r i (drop i text) of
              None \<Rightarrow> None
            | Some (e, gs) \<Rightarrow> Some (take (e - i) (drop i text) # gs))
       [0..<Suc (length text)]"

text \<open>\<open>/^<@([^|]+)\|([^>]+)>$/\<close>\<close>

definition user_regex :: "node list" where
  "user_regex =
     [Bol, Atom (Lit CHR ''<''), Atom (Lit CHR ''@''), CapturePlus (NotLit CHR ''|''),
      Atom (Lit CHR ''|''), CapturePlus (NotLit CHR ''>''), Atom (Lit CHR ''>''), Eol]"

text \<open>\<open>/^<#([^|]+)\|([^>]+)>$/\<close>\<close>

definition channel_regex :: "node list" where
  "channel_regex =
     [Bol, Atom (Lit CHR ''<''), Atom (Lit CHR ''#''), CapturePlus (NotLit CHR ''|''),
      Atom (Lit CHR ''|''), CapturePlus (NotLit CHR ''>''), Atom (Lit CHR ''>''), Eol]"

section \<open>SlackUser and SlackChannel\<close>

text \<open>
  The two classes hold an \<open>id\<close> and a \<open>name\<close>. The source types both as \<open>string\<close>; the
  constructor of the command context passes whatever the context holds, so the field
  type is a parameter. The selectors carry a suffix, \<open>id\<close> being a constant of HOL.
\<close>

datatype 'a SlackUser = SlackUser (id_u: 'a) (name_u: 'a)

datatype 'a SlackChannel = SlackChannel (id_c: 'a) (name_c: 'a)

datatype error =
    ExpectedError string  \<comment> \<open>clime's \<open>ExpectedError\<close>, with its message\<close>
  | TypeError             \<comment> \<open>the \<open>TypeError\<close> of the runtime\<close>
  | OutsideModel          \<comment> \<open>not an error of the program: a step the model does not describe\<close>

text \<open>The template literal \<open>`<@${this.id}|${this.name}>`\<close>.\<close>

definition SlackUser_toString :: "string SlackUser \<Rightarrow> string" where
  "SlackUser_toString this = concat [''<@'', id_u this, ''|'', name_u this, ''>'']"

definition SlackUser_cast :: "string \<Rightarrow> error + string SlackUser" where
  "SlackUser_cast text =
     (case string_match user_regex text of
        None \<Rightarrow>
          Inl (ExpectedError
                 (concat [[CHR 0x22], text, [CHR 0x22], '' is not a valid escaped slack user'']))
      | Some groups \<Rightarrow> Inr (SlackUser (groups ! 1) (groups ! 2)))"

definition SlackChannel_toString :: "string SlackChannel \<Rightarrow> string" where
  "SlackChannel_toString this = concat [''<#'', id_c this, ''|'', name_c this, ''>'']"

definition SlackChannel_cast :: "string \<Rightarrow> error + string SlackChannel" where
  "SlackChannel_cast text =
     (case string_match channel_regex text of
        None \<Rightarrow>
          Inl (ExpectedError
                 (concat [[CHR 0x22], text, [CHR 0x22], '' is not a valid escaped slack channel'']))
      | Some groups \<Rightarrow> Inr (SlackChannel (groups ! 1) (groups ! 2)))"

section \<open>JavaScript values\<close>

text \<open>
  \<open>isSlackCommandResponse\<close> takes a value of type \<open>any\<close>, and \<open>Object.assign\<close> copies whatever
  the extension object holds, so the model needs the values of the language.

  A number is its IEEE 754 double, as 64 bits. An object is its kind (which \<open>typeof\<close> and
  \<open>Array.isArray\<close> see), its own data properties in the order of their creation, each
  with its value and its \<open>writable\<close> and \<open>enumerable\<close> attributes, and its prototype:
  \<open>null\<close>, another object, or \<open>Object.prototype\<close>. The first entry for a key is the
  property. The elements and the \<open>length\<close> of an array are properties like the others.
  \<open>ObjectPrototype\<close> is \<open>Object.prototype\<close> as the runtime provides it, with its methods
  and its accessor \<open>__proto__\<close>.

  Outside the model: accessor properties other than that one, proxies, properties with a
  symbol as key, and the identity of objects (an object is a value here, so no object
  is its own prototype). Whether an object is extensible is not recorded: the program
  writes to \<open>this\<close> only, which is taken to be extensible, as a constructor creates it.
\<close>

datatype kind = OrdinaryObject | ArrayObject | FunctionObject

datatype 'v dprop = Data (value_of: 'v) (writable: bool) (enumerable: bool)

datatype jsval =
    Undefined
  | Null
  | Bool bool
  | Num "64 word"
  | BigInt int
  | Str string
  | Symbol
  | ObjectPrototype
  | Object kind "(string \<times> jsval dprop) list" jsval

text \<open>\<open>ToBoolean\<close>: the values that count as false are \<open>undefined\<close>, \<open>null\<close>, \<open>false\<close>,
  \<open>+0\<close>, \<open>-0\<close>, \<open>NaN\<close>, \<open>0n\<close> and the empty string.\<close>

definition number_is_zero :: "64 word \<Rightarrow> bool" where
  "number_is_zero w = (w AND 0x7FFFFFFFFFFFFFFF = 0)"

definition number_is_nan :: "64 word \<Rightarrow> bool" where
  "number_is_nan w = (0x7FF0000000000000 < w AND 0x7FFFFFFFFFFFFFFF)"

fun ToBoolean :: "jsval \<Rightarrow> bool" where
  "ToBoolean Undefined = False"
| "ToBoolean Null = False"
| "ToBoolean (Bool b) = b"
| "ToBoolean (Num w) = (\<not> number_is_zero w \<and> \<not> number_is_nan w)"
| "ToBoolean (BigInt n) = (n \<noteq> 0)"
| "ToBoolean (Str s) = (s \<noteq> [])"
| "ToBoolean Symbol = True"
| "ToBoolean ObjectPrototype = True"
| "ToBoolean (Object kd ps p) = True"

fun typeof :: "jsval \<Rightarrow> string" where
  "typeof Undefined = ''undefined''"
| "typeof Null = ''object''"
| "typeof (Bool b) = ''boolean''"
| "typeof (Num w) = ''number''"
| "typeof (BigInt n) = ''bigint''"
| "typeof (Str s) = ''string''"
| "typeof Symbol = ''symbol''"
| "typeof ObjectPrototype = ''object''"
| "typeof (Object kd ps p) = (if kd = FunctionObject then ''function'' else ''object'')"

fun isArray :: "jsval \<Rightarrow> bool" where
  "isArray (Object kd ps p) = (kd = ArrayObject)"
| "isArray v = False"

fun is_object :: "jsval \<Rightarrow> bool" where
  "is_object (Object kd ps p) = True"
| "is_object ObjectPrototype = True"
| "is_object v = False"

subsection \<open>Reading a property\<close>

text \<open>The methods of \<open>Object.prototype\<close>. They are functions, as the methods of the two
  classes are; what a function holds itself (its name, its length) is not modelled, and
  the program reads no property of a function.\<close>

definition Object_prototype_methods :: "string list" where
  "Object_prototype_methods =
     [''constructor'', ''__defineGetter__'', ''__defineSetter__'', ''hasOwnProperty'',
      ''__lookupGetter__'', ''__lookupSetter__'', ''isPrototypeOf'', ''propertyIsEnumerable'',
      ''toString'', ''valueOf'', ''toLocaleString'']"

definition function_value :: jsval where
  "function_value = Object FunctionObject [] ObjectPrototype"

text \<open>What the lookup of a key along the prototype chain finds: a data property, with
  its value and whether it is writable, or the accessor \<open>__proto__\<close>.\<close>

datatype 'v desc = DataDesc 'v bool | ProtoAccessor

fun find_prop :: "jsval \<Rightarrow> string \<Rightarrow> jsval desc option" where
  "find_prop (Object kd ps p) k =
     (case map_of ps k of
        Some d \<Rightarrow> Some (DataDesc (value_of d) (writable d))
      | None \<Rightarrow> find_prop p k)"
| "find_prop ObjectPrototype k =
     (if k = ''__proto__'' then Some ProtoAccessor
      else if k \<in> set Object_prototype_methods then Some (DataDesc function_value True)
      else None)"
| "find_prop v k = None"

fun GetPrototypeOf :: "jsval \<Rightarrow> jsval" where
  "GetPrototypeOf (Object kd ps p) = p"
| "GetPrototypeOf v = Null"

text \<open>\<open>O.[[Get]](k, O)\<close> for an object \<open>O\<close>: the getter of \<open>__proto__\<close> returns the prototype
  of the receiver.\<close>

definition OrdinaryGet :: "jsval \<Rightarrow> string \<Rightarrow> jsval" where
  "OrdinaryGet obj k =
     (case find_prop obj k of
        Some (DataDesc v w) \<Rightarrow> v
      | Some ProtoAccessor \<Rightarrow> GetPrototypeOf obj
      | None \<Rightarrow> Undefined)"

text \<open>The member expression \<open>v.k\<close>: a \<open>TypeError\<close> on \<open>undefined\<close> and \<open>null\<close>. On another
  primitive the read goes through the prototype of its wrapper, which the model does
  not hold.\<close>

definition GetV :: "jsval \<Rightarrow> string \<Rightarrow> error + jsval" where
  "GetV v k =
     (if v = Undefined \<or> v = Null then Inl TypeError
      else if is_object v then Inr (OrdinaryGet v k)
      else Inl OutsideModel)"

subsection \<open>Writing a property\<close>

text \<open>
  \<open>O.[[Set]](k, v, O)\<close> for an ordinary object \<open>O\<close>, as an assignment in strict code and
  \<open>Object.assign\<close> use it: a failure is a \<open>TypeError\<close>. An own property that is writable
  takes the value and keeps its place. Otherwise the key is looked up along the
  prototype chain: a data property there that is not writable makes the write fail; the
  setter of \<open>__proto__\<close> replaces the prototype of \<open>O\<close> when the value is an object or \<open>null\<close>
  and does nothing for another value; in the other cases \<open>O\<close> gets a new own property,
  writable and enumerable, after the ones it has.
\<close>

fun OrdinarySet :: "jsval \<Rightarrow> string \<Rightarrow> jsval \<Rightarrow> error + jsval" where
  "OrdinarySet (Object OrdinaryObject ps p) k v =
     (case map_of ps k of
        Some d \<Rightarrow>
          if writable d
          then Inr (Object OrdinaryObject (AList.update k (Data v True (enumerable d)) ps) p)
          else Inl TypeError
      | None \<Rightarrow>
          (case find_prop p k of
             Some (DataDesc u w) \<Rightarrow>
               if w then Inr (Object OrdinaryObject (ps @ [(k, Data v True True)]) p)
               else Inl TypeError
           | Some ProtoAccessor \<Rightarrow>
               Inr (Object OrdinaryObject ps (if is_object v \<or> v = Null then v else p))
           | None \<Rightarrow> Inr (Object OrdinaryObject (ps @ [(k, Data v True True)]) p)))"
| "OrdinarySet obj k v = Inl OutsideModel"

subsection \<open>Object.assign\<close>

text \<open>
  The own keys of an object in the order of \<open>[[OwnPropertyKeys]]\<close>: the array indices
  (canonical decimal numerals below \<open>4294967295\<close>, which is \<open>2^32 - 1\<close>) in ascending
  order, then the other keys in the order of their creation.
\<close>

definition is_digit :: "char \<Rightarrow> bool" where
  "is_digit c = (48 \<le> (of_char c :: int) \<and> (of_char c :: int) \<le> 57)"

definition digits_value :: "string \<Rightarrow> int" where
  "digits_value k = foldl (\<lambda>a c. 10 * a + (of_char c - 48)) 0 k"

definition array_index :: "string \<Rightarrow> int option" where
  "array_index k =
     (if k \<noteq> [] \<and> list_all is_digit k \<and> (k = ''0'' \<or> hd k \<noteq> CHR ''0'') \<and>
         digits_value k < 4294967295
      then Some (digits_value k) else None)"

definition own_keys :: "(string \<times> 'a) list \<Rightarrow> string list" where
  "own_keys ps =
     (let ks = rev (remdups (rev (map fst ps)))
      in sort_key (\<lambda>k. case array_index k of Some n \<Rightarrow> n | None \<Rightarrow> 0)
           (filter (\<lambda>k. array_index k \<noteq> None) ks)
         @ filter (\<lambda>k. array_index k = None) ks)"

text \<open>The own enumerable properties, as pairs of key and value, in that order.\<close>

definition enumerable_entries :: "(string \<times> jsval dprop) list \<Rightarrow> (string \<times> jsval) list" where
  "enumerable_entries ps =
     List.map_filter
       (\<lambda>k. case map_of ps k of
              Some d \<Rightarrow> if enumerable d then Some (k, value_of d) else None
            | None \<Rightarrow> None)
       (own_keys ps)"

fun assign_entries :: "jsval \<Rightarrow> (string \<times> jsval) list \<Rightarrow> error + jsval" where
  "assign_entries target [] = Inr target"
| "assign_entries target ((k, v) # kvs) =
     (case OrdinarySet target k v of
        Inl e \<Rightarrow> Inl e
      | Inr target' \<Rightarrow> assign_entries target' kvs)"

text \<open>
  \<open>Object.assign(target, source)\<close>: a source that is \<open>undefined\<close> or \<open>null\<close> is skipped;
  for each own enumerable property of the source, in order, the value is written to the
  target with \<open>[[Set]]\<close>. \<open>Object.prototype\<close> and the wrappers of booleans, numbers and
  symbols have no own enumerable property. A string as source is outside the model
  (the parameter of the constructor has the type \<open>object\<close>).
\<close>

fun Object_assign :: "jsval \<Rightarrow> jsval \<Rightarrow> error + jsval" where
  "Object_assign target (Object kd ps p) = assign_entries target (enumerable_entries ps)"
| "Object_assign target (Str s) = Inl OutsideModel"
| "Object_assign target source = Inr target"

subsection \<open>Operators\<close>

text \<open>\<open>a && b\<close> and \<open>a || b\<close>: the right operand is evaluated only when the left one does
  not decide, and the result is the value of an operand, not its truth value.\<close>

definition js_and :: "error + jsval \<Rightarrow> (unit \<Rightarrow> error + jsval) \<Rightarrow> error + jsval" where
  "js_and a b =
     (case a of Inl e \<Rightarrow> Inl e | Inr v \<Rightarrow> if ToBoolean v then b () else Inr v)"

definition js_or :: "error + jsval \<Rightarrow> (unit \<Rightarrow> error + jsval) \<Rightarrow> error + jsval" where
  "js_or a b =
     (case a of Inl e \<Rightarrow> Inl e | Inr v \<Rightarrow> if ToBoolean v then Inr v else b ())"

definition bind_err :: "error + 'a \<Rightarrow> ('a \<Rightarrow> error + 'b) \<Rightarrow> error + 'b" where
  "bind_err a f = (case a of Inl e \<Rightarrow> Inl e | Inr v \<Rightarrow> f v)"

section \<open>SlackCommandContext\<close>

text \<open>The fields the class declares, besides \<open>user\<close> and \<open>channel\<close>.\<close>

definition field_names :: "string list" where
  "field_names =
     [''token'', ''team_id'', ''team_domain'', ''enterprise_id'', ''enterprise_name'',
      ''channel_id'', ''channel_name'', ''user_id'', ''user_name'', ''command'', ''text'',
      ''response_url'', ''trigger_id'']"

text \<open>
  An instance of \<open>SlackUser\<close> or \<open>SlackChannel\<close> as a value: the constructor writes \<open>id\<close> and
  \<open>name\<close> (\<open>readonly\<close> is erased by the compiler), and the prototype of the class holds
  \<open>constructor\<close> and \<open>toString\<close>.
\<close>

definition SlackUser_prototype :: jsval where
  "SlackUser_prototype =
     Object OrdinaryObject
       [(''constructor'', Data function_value True False),
        (''toString'', Data function_value True False)]
       ObjectPrototype"

definition SlackChannel_prototype :: jsval where
  "SlackChannel_prototype =
     Object OrdinaryObject
       [(''constructor'', Data function_value True False),
        (''toString'', Data function_value True False)]
       ObjectPrototype"

definition SlackUser_instance :: "jsval SlackUser \<Rightarrow> jsval" where
  "SlackUser_instance u =
     Object OrdinaryObject
       [(''id'', Data (id_u u) True True), (''name'', Data (name_u u) True True)]
       SlackUser_prototype"

definition SlackChannel_instance :: "jsval SlackChannel \<Rightarrow> jsval" where
  "SlackChannel_instance c =
     Object OrdinaryObject
       [(''id'', Data (id_c c) True True), (''name'', Data (name_c c) True True)]
       SlackChannel_prototype"

text \<open>
  The constructor. \<open>Context\<close> is a class of the library clime, which the repository
  imports: the first argument is the outcome of \<open>super(options)\<close>, an error or \<open>this\<close> as
  the base constructor leaves it. The class declares its fields without initialisers,
  so the declarations write nothing (the compiler emits no code for them). The two
  assignments are strict code.
\<close>

definition SlackCommandContext :: "error + jsval \<Rightarrow> jsval \<Rightarrow> error + jsval" where
  "SlackCommandContext super contextExtension =
     bind_err super (\<lambda>this.
     bind_err (Object_assign this contextExtension) (\<lambda>this.
     bind_err (OrdinarySet this ''user''
                 (SlackUser_instance
                    (SlackUser (OrdinaryGet this ''user_id'') (OrdinaryGet this ''user_name''))))
       (\<lambda>this.
     bind_err (OrdinarySet this ''channel''
                 (SlackChannel_instance
                    (SlackChannel (OrdinaryGet this ''channel_id'')
                                  (OrdinaryGet this ''channel_name''))))
       (\<lambda>this. Inr this))))"

section \<open>isSlackCommandResponse\<close>

definition isSlackCommandResponse :: "jsval \<Rightarrow> error + jsval" where
  "isSlackCommandResponse object =
     js_and
       (js_and (Inr object) (\<lambda>_. Inr (Bool (typeof object = ''object''))))
       (\<lambda>_. js_or
               (bind_err (GetV object ''text'') (\<lambda>t. Inr (Bool (typeof t = ''string''))))
               (\<lambda>_. bind_err (GetV object ''attachments'') (\<lambda>a. Inr (Bool (isArray a)))))"

section \<open>Auxiliary definitions\<close>

text \<open>The two regular expressions differ in one character, the sigil.\<close>

definition mention_regex :: "char \<Rightarrow> node list" where
  "mention_regex sg =
     [Bol, Atom (Lit CHR ''<''), Atom (Lit sg), CapturePlus (NotLit CHR ''|''),
      Atom (Lit CHR ''|''), CapturePlus (NotLit CHR ''>''), Atom (Lit CHR ''>''), Eol]"

text \<open>The specification's ``non-null value of a structured (key/value) kind'', used to
  state what the recognizer accepts: an object that is not a function.\<close>

fun structured :: "jsval \<Rightarrow> bool" where
  "structured (Object kd ps p) = (kd \<noteq> FunctionObject)"
| "structured ObjectPrototype = True"
| "structured v = False"

text \<open>The value of an own property of an object, used to state what the constructor
  leaves on the context.\<close>

fun own_value :: "jsval \<Rightarrow> string \<Rightarrow> jsval option" where
  "own_value (Object kd ps p) k = map_option value_of (map_of ps k)"
| "own_value v k = None"

text \<open>The value of an own enumerable property of an object: what \<open>Object.assign\<close> copies
  from it under that key.\<close>

fun own_enumerable :: "jsval \<Rightarrow> string \<Rightarrow> jsval option" where
  "own_enumerable (Object kd ps p) k =
     (case map_of ps k of
        Some d \<Rightarrow> if enumerable d then Some (value_of d) else None
      | None \<Rightarrow> None)"
| "own_enumerable v k = None"

text \<open>Every data property of the object and of the objects along its prototype chain
  is writable.\<close>

fun writable_chain :: "jsval \<Rightarrow> bool" where
  "writable_chain (Object kd ps p) = (list_all (\<lambda>kd. writable (snd kd)) ps \<and> writable_chain p)"
| "writable_chain v = True"

text \<open>What the statements ask of \<open>this\<close> as the base constructor leaves it: an ordinary
  object with writable properties, its own and the inherited ones.\<close>

fun settable :: "jsval \<Rightarrow> bool" where
  "settable (Object kd ps p) = (kd = OrdinaryObject \<and> writable_chain (Object kd ps p))"
| "settable v = False"

text \<open>Reading a field of the outcome of the constructor.\<close>

definition ctx_field :: "error + jsval \<Rightarrow> string \<Rightarrow> error + jsval" where
  "ctx_field r k = bind_err r (\<lambda>this. GetV this k)"

text \<open>
  Values for the examples: an object as \<open>JSON.parse\<close> builds it, with every entry an own
  property; the same object after \<open>Object.freeze\<close>, of which the model keeps that no
  property is writable; the empty array, over \<open>Array.prototype\<close>
  with its methods left out (the examples read none); and an instance as the constructor
  of clime's \<open>Context\<close> leaves it, with \<open>cwd\<close> and \<open>commands\<close> set and the prototypes of the
  two classes above \<open>Object.prototype\<close>.
\<close>

definition parsed_object :: "(string \<times> jsval) list \<Rightarrow> jsval" where
  "parsed_object kvs = Object OrdinaryObject (map (\<lambda>(k, v). (k, Data v True True)) kvs) ObjectPrototype"


definition Array_prototype :: jsval where
  "Array_prototype = Object ArrayObject [(''length'', Data (Num 0) True False)] ObjectPrototype"

definition empty_array :: jsval where
  "empty_array = Object ArrayObject [(''length'', Data (Num 0) True False)] Array_prototype"

definition example_this :: jsval where
  "example_this =
     Object OrdinaryObject
       [(''cwd'', Data (Str ''/tmp'') True True), (''commands'', Data empty_array True True)]
       (Object OrdinaryObject [(''constructor'', Data function_value True False)]
          (Object OrdinaryObject [(''constructor'', Data function_value True False)]
             ObjectPrototype))"

section \<open>The matcher on the two regular expressions\<close>

declare rmatch.simps(5) [simp del]

lemma first_some_None: "(\<And>x. x \<in> set xs \<Longrightarrow> f x = None) \<Longrightarrow> first_some f xs = None"
  by (induction xs) auto

lemma first_some_longest:
  assumes "\<And>k. 1 \<le> k \<Longrightarrow> k < n \<Longrightarrow> f k = None"
  shows "first_some f (rev [1..<Suc n]) = (if n = 0 then None else f n)"
proof (cases n)
  case 0
  then show ?thesis by simp
next
  case (Suc m)
  have rest: "first_some f (rev [1..<Suc m]) = None"
    using assms Suc by (intro first_some_None) auto
  show ?thesis
    using Suc rest by (cases "f (Suc m)") auto
qed

lemma rmatch_capture_delim:
  "rmatch (CapturePlus (NotLit c) # Atom (Lit c) # ns) i s =
     (let g = takeWhile (\<lambda>x. x \<noteq> c) s in
      if g = [] then None
      else case dropWhile (\<lambda>x. x \<noteq> c) s of
             [] \<Rightarrow> None
           | d # r \<Rightarrow> (case rmatch ns (Suc (i + length g)) r of
                         None \<Rightarrow> None
                       | Some (e, gs) \<Rightarrow> Some (e, g # gs)))"
proof -
  let ?P = "\<lambda>x. x \<noteq> c"
  let ?n = "length (takeWhile ?P s)"
  let ?f = "\<lambda>k. case rmatch (Atom (Lit c) # ns) (i + k) (drop k s) of
                  None \<Rightarrow> None
                | Some (e, gs) \<Rightarrow> Some (e, take k s # gs)"
  have P: "atom_matches (NotLit c) = ?P" by (rule ext) simp
  have short: "?f k = None" if "k < ?n" for k
  proof -
    have "k < length s" using that length_takeWhile_le [of ?P s] by (meson le_trans not_le)
    then have d: "drop k s = s ! k # drop (Suc k) s" by (simp add: Cons_nth_drop_Suc)
    have "takeWhile ?P s ! k = s ! k" using that by (rule takeWhile_nth)
    moreover have "takeWhile ?P s ! k \<in> set (takeWhile ?P s)" using that by simp
    ultimately have "s ! k \<noteq> c" by (metis set_takeWhileD)
    with d show ?thesis by simp
  qed
  have "rmatch (CapturePlus (NotLit c) # Atom (Lit c) # ns) i s = first_some ?f (rev [1..<Suc ?n])"
    by (simp only: rmatch.simps(5) P Let_def)
  also have "\<dots> = (if ?n = 0 then None else ?f ?n)"
    by (rule first_some_longest) (rule short)
  also have "\<dots> = (let g = takeWhile (\<lambda>x. x \<noteq> c) s in
      if g = [] then None
      else case dropWhile (\<lambda>x. x \<noteq> c) s of
             [] \<Rightarrow> None
           | d # r \<Rightarrow> (case rmatch ns (Suc (i + length g)) r of
                         None \<Rightarrow> None
                       | Some (e, gs) \<Rightarrow> Some (e, g # gs)))"
  proof (cases "dropWhile ?P s")
    case Nil
    show ?thesis
      by (simp add: Let_def dropWhile_eq_drop [symmetric] takeWhile_eq_take [symmetric] Nil)
  next
    case (Cons d r)
    have "d = c" using hd_dropWhile [of ?P s] Cons by (metis list.sel(1) list.distinct(1))
    then show ?thesis
      by (simp add: Let_def dropWhile_eq_drop [symmetric] takeWhile_eq_take [symmetric] Cons
          split: option.split)
  qed
  finally show ?thesis .
qed

lemma split_at_delim:
  "takeWhile (\<lambda>x. x \<noteq> c) s = g \<and> dropWhile (\<lambda>x. x \<noteq> c) s = d # r
     \<longleftrightarrow> s = g @ c # r \<and> c \<notin> set g \<and> d = c"
proof
  assume h: "takeWhile (\<lambda>x. x \<noteq> c) s = g \<and> dropWhile (\<lambda>x. x \<noteq> c) s = d # r"
  have "d = c"
    using hd_dropWhile [of "\<lambda>x. x \<noteq> c" s] h by (metis list.sel(1) list.distinct(1))
  moreover have "s = g @ d # r"
    using takeWhile_dropWhile_id [of "\<lambda>x. x \<noteq> c" s] h by simp
  moreover have "c \<notin> set g"
    using h set_takeWhileD [of c "\<lambda>x. x \<noteq> c" s] by blast
  ultimately show "s = g @ c # r \<and> c \<notin> set g \<and> d = c" by simp
next
  assume h: "s = g @ c # r \<and> c \<notin> set g \<and> d = c"
  then have all: "\<And>x. x \<in> set g \<Longrightarrow> x \<noteq> c" by blast
  have "takeWhile (\<lambda>x. x \<noteq> c) (g @ c # r) = g"
    using all by (simp add: takeWhile_append2)
  moreover have "dropWhile (\<lambda>x. x \<noteq> c) (g @ c # r) = c # r"
    using all by (simp add: dropWhile_append2)
  ultimately show "takeWhile (\<lambda>x. x \<noteq> c) s = g \<and> dropWhile (\<lambda>x. x \<noteq> c) s = d # r"
    using h by simp
qed

lemma rmatch_capture_delim_iff:
  "rmatch (CapturePlus (NotLit c) # Atom (Lit c) # ns) i s = Some (e, gs) \<longleftrightarrow>
     (\<exists>g r gs'. s = g @ c # r \<and> g \<noteq> [] \<and> c \<notin> set g \<and>
        rmatch ns (Suc (i + length g)) r = Some (e, gs') \<and> gs = g # gs')"
  (is "?L \<longleftrightarrow> ?R")
proof
  assume l: ?L
  let ?g = "takeWhile (\<lambda>x. x \<noteq> c) s"
  from l have ne: "?g \<noteq> []"
    by (auto simp: rmatch_capture_delim Let_def split: if_splits)
  from l ne obtain d r where dr: "dropWhile (\<lambda>x. x \<noteq> c) s = d # r"
    by (cases "dropWhile (\<lambda>x. x \<noteq> c) s") (auto simp: rmatch_capture_delim Let_def)
  from l ne dr obtain gs' where
    rest: "rmatch ns (Suc (i + length ?g)) r = Some (e, gs')" and gs: "gs = ?g # gs'"
    by (auto simp: rmatch_capture_delim Let_def split: option.splits)
  from dr have "s = ?g @ c # r \<and> c \<notin> set ?g \<and> d = c"
    using split_at_delim [of c s ?g d r] by simp
  with ne rest gs show ?R by blast
next
  assume ?R
  then obtain g r gs' where s: "s = g @ c # r" and ne: "g \<noteq> []" and c: "c \<notin> set g"
    and rest: "rmatch ns (Suc (i + length g)) r = Some (e, gs')" and gs: "gs = g # gs'"
    by blast
  from s c have "takeWhile (\<lambda>x. x \<noteq> c) s = g \<and> dropWhile (\<lambda>x. x \<noteq> c) s = c # r"
    using split_at_delim [of c s g c r] by simp
  with ne rest gs show ?L
    by (simp add: rmatch_capture_delim Let_def)
qed

lemma rmatch_mention_iff:
  "rmatch (mention_regex sg) i text = Some (e, gs) \<longleftrightarrow>
     i = 0 \<and>
     (\<exists>A B. text = CHR ''<'' # sg # A @ CHR ''|'' # B @ ''>'' \<and>
        A \<noteq> [] \<and> CHR ''|'' \<notin> set A \<and> B \<noteq> [] \<and> CHR ''>'' \<notin> set B \<and>
        e = length text \<and> gs = [A, B])"
  (is "?L \<longleftrightarrow> ?R")
proof
  assume l: ?L
  then have i: "i = 0"
    by (simp add: mention_regex_def split: if_splits)
  from l i obtain s1 where t: "text = CHR ''<'' # sg # s1"
    and m1: "rmatch [CapturePlus (NotLit CHR ''|''), Atom (Lit CHR ''|''),
                     CapturePlus (NotLit CHR ''>''), Atom (Lit CHR ''>''), Eol] 2 s1 = Some (e, gs)"
    by (auto simp: mention_regex_def numeral_2_eq_2 split: list.splits if_splits)
  from m1 obtain A s2 gs1 where s1: "s1 = A @ CHR ''|'' # s2" and A: "A \<noteq> []" "CHR ''|'' \<notin> set A"
    and m2: "rmatch [CapturePlus (NotLit CHR ''>''), Atom (Lit CHR ''>''), Eol] (Suc (2 + length A)) s2
               = Some (e, gs1)" and gs: "gs = A # gs1"
    unfolding rmatch_capture_delim_iff by blast
  from m2 obtain B s3 gs2 where s2: "s2 = B @ CHR ''>'' # s3" and B: "B \<noteq> []" "CHR ''>'' \<notin> set B"
    and m3: "rmatch [Eol] (Suc (Suc (2 + length A) + length B)) s3 = Some (e, gs2)"
    and gs1: "gs1 = B # gs2"
    unfolding rmatch_capture_delim_iff by blast
  from m3 have "s3 = []" "gs2 = []" "e = Suc (Suc (2 + length A) + length B)"
    by (auto split: if_splits)
  with i t s1 s2 A B gs gs1 show ?R by simp
next
  assume ?R
  then obtain A B where i: "i = 0" and t: "text = CHR ''<'' # sg # A @ CHR ''|'' # B @ ''>''"
    and A: "A \<noteq> []" "CHR ''|'' \<notin> set A" and B: "B \<noteq> []" "CHR ''>'' \<notin> set B"
    and e: "e = length text" and gs: "gs = [A, B]"
    by blast
  have m3: "rmatch [Eol] (Suc (Suc (2 + length A) + length B)) [] = Some (e, [])"
    using e t by simp
  have m2: "rmatch [CapturePlus (NotLit CHR ''>''), Atom (Lit CHR ''>''), Eol] (Suc (2 + length A)) (B @ ''>'')
              = Some (e, [B])"
    apply (rule iffD2 [OF rmatch_capture_delim_iff])
    apply (rule exI [of _ B], rule exI [of _ "[]"], rule exI [of _ "[]"])
    apply (intro conjI refl B m3)
    done
  have m1: "rmatch [CapturePlus (NotLit CHR ''|''), Atom (Lit CHR ''|''),
                     CapturePlus (NotLit CHR ''>''), Atom (Lit CHR ''>''), Eol] 2 (A @ CHR ''|'' # B @ ''>'')
              = Some (e, [A, B])"
    apply (rule iffD2 [OF rmatch_capture_delim_iff])
    apply (rule exI [of _ A], rule exI [of _ "B @ ''>''"], rule exI [of _ "[B]"])
    apply (intro conjI refl A m2)
    done
  show ?L
    using i t gs m1 by (simp add: mention_regex_def numeral_2_eq_2)
qed

lemma string_match_anchored:
  "string_match (Bol # ns) text =
     (case rmatch (Bol # ns) 0 text of
        None \<Rightarrow> None
      | Some (e, gs) \<Rightarrow> Some (take e text # gs))"
proof -
  let ?f = "\<lambda>i. case rmatch (Bol # ns) i (drop i text) of
                  None \<Rightarrow> None
                | Some (e, gs) \<Rightarrow> Some (take (e - i) (drop i text) # gs)"
  have later: "first_some ?f [1..<Suc (length text)] = None"
    by (rule first_some_None) auto
  have "[0..<Suc (length text)] = 0 # [1..<Suc (length text)]"
    by (simp add: upt_rec)
  then have "string_match (Bol # ns) text = (case ?f 0 of Some y \<Rightarrow> Some y | None \<Rightarrow> None)"
    unfolding string_match_def using later by (simp only: first_some.simps)
  then show ?thesis
    by (simp split: option.splits)
qed

lemma string_match_mention_iff:
  "string_match (mention_regex sg) text = Some groups \<longleftrightarrow>
     (\<exists>A B. text = CHR ''<'' # sg # A @ CHR ''|'' # B @ ''>'' \<and>
        A \<noteq> [] \<and> CHR ''|'' \<notin> set A \<and> B \<noteq> [] \<and> CHR ''>'' \<notin> set B \<and>
        groups = [text, A, B])"
  (is "?L \<longleftrightarrow> ?R")
proof -
  have anch: "string_match (mention_regex sg) text =
     (case rmatch (mention_regex sg) 0 text of
        None \<Rightarrow> None
      | Some (e, gs) \<Rightarrow> Some (take e text # gs))"
    unfolding mention_regex_def by (rule string_match_anchored)
  show ?thesis
  proof
    assume ?L
    then obtain e gs where m: "rmatch (mention_regex sg) 0 text = Some (e, gs)"
      and g: "groups = take e text # gs"
      unfolding anch by (auto split: option.splits)
    from m g show ?R unfolding rmatch_mention_iff by auto
  next
    assume ?R
    then obtain A B where t: "text = CHR ''<'' # sg # A @ CHR ''|'' # B @ ''>''"
      and A: "A \<noteq> []" "CHR ''|'' \<notin> set A" and B: "B \<noteq> []" "CHR ''>'' \<notin> set B"
      and g: "groups = [text, A, B]"
      by blast
    have "rmatch (mention_regex sg) 0 text = Some (length text, [A, B])"
      unfolding rmatch_mention_iff using t A B by blast
    then show ?L unfolding anch using g by simp
  qed
qed

section \<open>The two cast methods\<close>

lemma user_regex_mention: "user_regex = mention_regex CHR ''@''"
  by (simp add: user_regex_def mention_regex_def)

lemma channel_regex_mention: "channel_regex = mention_regex CHR ''#''"
  by (simp add: channel_regex_def mention_regex_def)

text \<open>Both methods have one shape: an error when there is no match, and otherwise an
  instance built from the captures at the indices 1 and 2.\<close>

lemma cast_shape_Inr_iff:
  "(case string_match (mention_regex sg) text of
      None \<Rightarrow> Inl err
    | Some groups \<Rightarrow> Inr (mk (groups ! 1) (groups ! 2))) = Inr u \<longleftrightarrow>
     (\<exists>A B. text = CHR ''<'' # sg # A @ CHR ''|'' # B @ ''>'' \<and>
        A \<noteq> [] \<and> CHR ''|'' \<notin> set A \<and> B \<noteq> [] \<and> CHR ''>'' \<notin> set B \<and>
        u = mk A B)"
  (is "?C = Inr u \<longleftrightarrow> ?R")
proof (cases "string_match (mention_regex sg) text")
  case None
  have "\<not> ?R"
  proof
    assume ?R
    then obtain A B where "string_match (mention_regex sg) text = Some [text, A, B]"
      unfolding string_match_mention_iff by blast
    with None show False by simp
  qed
  with None show ?thesis by simp
next
  case (Some groups)
  then obtain A B where ab: "text = CHR ''<'' # sg # A @ CHR ''|'' # B @ ''>''"
    "A \<noteq> []" "CHR ''|'' \<notin> set A" "B \<noteq> []" "CHR ''>'' \<notin> set B" "groups = [text, A, B]"
    unfolding string_match_mention_iff by blast
  have uniq: "A' = A \<and> B' = B"
    if "text = CHR ''<'' # sg # A' @ CHR ''|'' # B' @ ''>''"
      "A' \<noteq> []" "CHR ''|'' \<notin> set A'" "B' \<noteq> []" "CHR ''>'' \<notin> set B'" for A' B'
  proof -
    have "string_match (mention_regex sg) text = Some [text, A', B']"
      unfolding string_match_mention_iff using that by blast
    with Some ab show ?thesis by simp
  qed
  have cast: "?C = Inr (mk A B)"
    using Some ab by simp
  show ?thesis
  proof
    assume "?C = Inr u"
    with cast have "u = mk A B" by simp
    with ab show ?R by blast
  next
    assume ?R
    then show "?C = Inr u"
      using uniq cast by blast
  qed
qed


lemma SlackUser_cast_Inr_iff:
  "SlackUser_cast text = Inr u \<longleftrightarrow>
     (\<exists>A B. text = CHR ''<'' # CHR ''@'' # A @ CHR ''|'' # B @ ''>'' \<and>
        A \<noteq> [] \<and> CHR ''|'' \<notin> set A \<and> B \<noteq> [] \<and> CHR ''>'' \<notin> set B \<and>
        u = SlackUser A B)"
  unfolding SlackUser_cast_def user_regex_mention by (rule cast_shape_Inr_iff)

lemma SlackChannel_cast_Inr_iff:
  "SlackChannel_cast text = Inr u \<longleftrightarrow>
     (\<exists>A B. text = CHR ''<'' # CHR ''#'' # A @ CHR ''|'' # B @ ''>'' \<and>
        A \<noteq> [] \<and> CHR ''|'' \<notin> set A \<and> B \<noteq> [] \<and> CHR ''>'' \<notin> set B \<and>
        u = SlackChannel A B)"
  unfolding SlackChannel_cast_def channel_regex_mention by (rule cast_shape_Inr_iff)

lemma SlackUser_cast_token:
  assumes "A \<noteq> []" "CHR ''|'' \<notin> set A" "B \<noteq> []" "CHR ''>'' \<notin> set B"
  shows "SlackUser_cast (''<@'' @ A @ ''|'' @ B @ ''>'') = Inr (SlackUser A B)"
  unfolding SlackUser_cast_Inr_iff using assms by auto

lemma SlackChannel_cast_token:
  assumes "A \<noteq> []" "CHR ''|'' \<notin> set A" "B \<noteq> []" "CHR ''>'' \<notin> set B"
  shows "SlackChannel_cast (''<#'' @ A @ ''|'' @ B @ ''>'') = Inr (SlackChannel A B)"
  unfolding SlackChannel_cast_Inr_iff using assms by auto

section \<open>Lemmas on the recognizer\<close>

lemma typeof_string_iff: "typeof t = ''string'' \<longleftrightarrow> (\<exists>s. t = Str s)"
  by (cases t) simp_all

lemma typeof_object_iff: "typeof v = ''object'' \<longleftrightarrow> v = Null \<or> structured v"
  by (cases v) simp_all

lemma structured_ToBoolean: "structured v \<Longrightarrow> ToBoolean v"
  by (cases v) simp_all

lemma structured_is_object: "structured v \<Longrightarrow> is_object v"
  by (cases v) simp_all

lemma isArray_iff: "isArray a \<longleftrightarrow> (\<exists>ps p. a = Object ArrayObject ps p)"
  by (cases a) auto

lemma GetV_structured: "structured v \<Longrightarrow> GetV v k = Inr (OrdinaryGet v k)"
  by (cases v) (simp_all add: GetV_def)

text \<open>The accessor is found under the key \<open>__proto__\<close> only.\<close>

lemma find_prop_accessor: "find_prop obj k = Some ProtoAccessor \<Longrightarrow> k = ''__proto__''"
  by (induction obj k rule: find_prop.induct) (auto split: option.splits if_splits)

lemma OrdinaryGet_data:
  assumes "k \<noteq> ''__proto__''"
  shows "OrdinaryGet obj k = (case find_prop obj k of Some (DataDesc v w) \<Rightarrow> v | _ \<Rightarrow> Undefined)"
proof (cases "find_prop obj k")
  case None
  then show ?thesis by (simp add: OrdinaryGet_def)
next
  case (Some d)
  with assms find_prop_accessor [of obj k] show ?thesis
    by (cases d) (auto simp: OrdinaryGet_def)
qed

lemma OrdinaryGet_Str_iff:
  assumes "k \<noteq> ''__proto__''"
  shows "typeof (OrdinaryGet obj k) = ''string'' \<longleftrightarrow>
           (\<exists>s w. find_prop obj k = Some (DataDesc (Str s) w))"
  unfolding OrdinaryGet_data [OF assms] typeof_string_iff
  by (auto split: option.splits desc.splits)

lemma OrdinaryGet_Array_iff:
  assumes "k \<noteq> ''__proto__''"
  shows "isArray (OrdinaryGet obj k) \<longleftrightarrow>
           (\<exists>ps p w. find_prop obj k = Some (DataDesc (Object ArrayObject ps p) w))"
  unfolding OrdinaryGet_data [OF assms] isArray_iff
  by (auto split: option.splits desc.splits)

text \<open>The value the function returns, case by case.\<close>

lemma isSlackCommandResponse_value:
  "isSlackCommandResponse v =
     (if \<not> ToBoolean v then Inr v
      else if \<not> structured v then Inr (Bool False)
      else Inr (Bool (typeof (OrdinaryGet v ''text'') = ''string'' \<or>
                      isArray (OrdinaryGet v ''attachments''))))"
proof (cases "ToBoolean v")
  case False
  then show ?thesis
    by (simp add: isSlackCommandResponse_def js_and_def)
next
  case True
  show ?thesis
  proof (cases "structured v")
    case False
    with True have "typeof v \<noteq> ''object''"
      by (auto simp: typeof_object_iff)
    with True False show ?thesis
      by (simp add: isSlackCommandResponse_def js_and_def)
  next
    case s: True
    then have "typeof v = ''object''"
      by (simp add: typeof_object_iff)
    with True s show ?thesis
      by (simp add: isSlackCommandResponse_def js_and_def js_or_def bind_err_def GetV_structured)
  qed
qed

lemma isSlackCommandResponse_no_error: "\<exists>r. isSlackCommandResponse v = Inr r"
  by (simp add: isSlackCommandResponse_value)

lemma isSlackCommandResponse_true_iff:
  "isSlackCommandResponse v = Inr (Bool True) \<longleftrightarrow>
     structured v \<and>
     ((\<exists>s w. find_prop v ''text'' = Some (DataDesc (Str s) w)) \<or>
      (\<exists>ps p w. find_prop v ''attachments'' = Some (DataDesc (Object ArrayObject ps p) w)))"
proof (cases "structured v")
  case True
  then show ?thesis
    by (simp add: isSlackCommandResponse_value structured_ToBoolean OrdinaryGet_Str_iff
        OrdinaryGet_Array_iff)
next
  case False
  then show ?thesis
    by (cases v) (simp_all add: isSlackCommandResponse_value)
qed

lemma isSlackCommandResponse_truthy_is_true:
  "isSlackCommandResponse v = Inr r \<Longrightarrow> ToBoolean r = (r = Bool True)"
  by (auto simp: isSlackCommandResponse_value split: if_splits)

section \<open>Lemmas on the own keys\<close>

lemma set_own_keys: "set (own_keys ps) = fst ` set ps"
  by (auto simp: own_keys_def Let_def)

lemma distinct_own_keys: "distinct (own_keys ps)"
  by (auto simp: own_keys_def Let_def)

lemma map_of_map_filter_key:
  assumes "\<And>k y. f k = Some y \<Longrightarrow> fst y = k"
  shows "map_of (List.map_filter f ks) k = (if k \<in> set ks then map_option snd (f k) else None)"
proof (induction ks)
  case Nil
  then show ?case by (simp add: List.map_filter_simps)
next
  case (Cons a ks)
  show ?case
  proof (cases "f a")
    case None
    with Cons show ?thesis by (auto simp: List.map_filter_simps)
  next
    case (Some y)
    with assms have "fst y = a" by blast
    with Some Cons show ?thesis
      by (cases y) (auto simp: List.map_filter_simps)
  qed
qed

lemma map_fst_map_filter_key:
  assumes "\<And>k y. f k = Some y \<Longrightarrow> fst y = k"
  shows "map fst (List.map_filter f ks) = filter (\<lambda>k. f k \<noteq> None) ks"
proof (induction ks)
  case Nil
  then show ?case by (simp add: List.map_filter_simps)
next
  case (Cons a ks)
  then show ?case
    using assms [of a] by (cases "f a") (auto simp: List.map_filter_simps)
qed

lemma map_of_enumerable_entries:
  "map_of (enumerable_entries ps) k =
     (case map_of ps k of
        Some d \<Rightarrow> if enumerable d then Some (value_of d) else None
      | None \<Rightarrow> None)"
proof -
  let ?f = "\<lambda>k. case map_of ps k of
              Some d \<Rightarrow> if enumerable d then Some (k, value_of d) else None
            | None \<Rightarrow> None"
  have key: "\<And>k y. ?f k = Some y \<Longrightarrow> fst y = k"
    by (auto split: option.splits if_splits)
  have "map_of (enumerable_entries ps) k =
          (if k \<in> set (own_keys ps) then map_option snd (?f k) else None)"
    unfolding enumerable_entries_def by (rule map_of_map_filter_key [OF key])
  also have "\<dots> = (case map_of ps k of
        Some d \<Rightarrow> if enumerable d then Some (value_of d) else None
      | None \<Rightarrow> None)"
    by (auto simp: set_own_keys map_of_eq_None_iff [symmetric] split: option.splits)
  finally show ?thesis .
qed

lemma distinct_enumerable_entries: "distinct (map fst (enumerable_entries ps))"
proof -
  let ?f = "\<lambda>k. case map_of ps k of
              Some d \<Rightarrow> if enumerable d then Some (k, value_of d) else None
            | None \<Rightarrow> None"
  have key: "\<And>k y. ?f k = Some y \<Longrightarrow> fst y = k"
    by (auto split: option.splits if_splits)
  have "map fst (enumerable_entries ps) = filter (\<lambda>k. ?f k \<noteq> None) (own_keys ps)"
    unfolding enumerable_entries_def by (rule map_fst_map_filter_key [OF key])
  then show ?thesis
    by (simp add: distinct_own_keys)
qed

section \<open>Lemmas on writing a property\<close>

lemma writable_found:
  "writable_chain obj \<Longrightarrow> find_prop obj k = Some (DataDesc u w) \<Longrightarrow> w"
proof (induction obj k rule: find_prop.induct)
  case (1 kd ps p k)
  show ?case
  proof (cases "map_of ps k")
    case None
    with 1 show ?thesis by simp
  next
    case (Some d)
    then have "(k, d) \<in> set ps" by (rule map_of_SomeD)
    with 1(2) have "writable d" by (auto simp: list_all_iff)
    with 1(3) Some show ?thesis by simp
  qed
qed (auto split: if_splits)

lemma list_all_update:
  "list_all P ps \<Longrightarrow> P (k, x) \<Longrightarrow> list_all P (AList.update k x ps)"
  by (induction ps) auto

lemma OrdinarySet_Inr_target:
  "OrdinarySet t k v = Inr t' \<Longrightarrow> \<exists>ps p. t = Object OrdinaryObject ps p"
  by (cases "(t, k, v)" rule: OrdinarySet.cases) auto

lemma OrdinarySet_Inr_result:
  "OrdinarySet t k v = Inr t' \<Longrightarrow> \<exists>ps p. t' = Object OrdinaryObject ps p"
  by (cases "(t, k, v)" rule: OrdinarySet.cases)
    (auto split: option.splits desc.splits if_splits)

lemma OrdinarySet_settable:
  assumes "settable t" and "k = ''__proto__'' \<Longrightarrow> is_object v \<Longrightarrow> writable_chain v"
  shows "\<exists>t'. OrdinarySet t k v = Inr t' \<and> settable t'"
proof -
  from assms(1) obtain ps p where t: "t = Object OrdinaryObject ps p"
    and ps: "list_all (\<lambda>kd. writable (snd kd)) ps" and p: "writable_chain p"
    by (cases t) auto
  show ?thesis
  proof (cases "map_of ps k")
    case (Some d)
    then have "(k, d) \<in> set ps" by (rule map_of_SomeD)
    with ps have "writable d" by (auto simp: list_all_iff)
    with Some t ps p show ?thesis
      by (simp add: list_all_update)
  next
    case None
    show ?thesis
    proof (cases "find_prop p k")
      case n: None
      with None t ps p show ?thesis by simp
    next
      case (Some f)
      show ?thesis
      proof (cases f)
        case (DataDesc u w)
        with Some p have w by (auto dest: writable_found)
        with DataDesc Some None t ps p show ?thesis by simp
      next
        case ProtoAccessor
        with Some have k: "k = ''__proto__''" by (auto dest: find_prop_accessor)
        have "writable_chain (if is_object v \<or> v = Null then v else p)"
          using assms(2) [OF k] p by auto
        with ProtoAccessor Some None t ps show ?thesis by simp
      qed
    qed
  qed
qed

lemma OrdinarySet_own_other:
  assumes "OrdinarySet t k v = Inr t'" and "k' \<noteq> k"
  shows "own_value t' k' = own_value t k'"
proof -
  from assms(1) obtain ps p where t: "t = Object OrdinaryObject ps p"
    by (auto dest: OrdinarySet_Inr_target)
  from assms show ?thesis
    unfolding t
    by (auto simp: update_conv' map_of_append map_add_def split: option.splits desc.splits if_splits)
qed

lemma OrdinarySet_own_same:
  assumes "OrdinarySet t k v = Inr t'" and "k \<noteq> ''__proto__''"
  shows "own_value t' k = Some v"
proof -
  from assms(1) obtain ps p where t: "t = Object OrdinaryObject ps p"
    by (auto dest: OrdinarySet_Inr_target)
  from assms show ?thesis
    unfolding t
    by (auto simp: update_conv' map_of_append map_add_def dest: find_prop_accessor
        split: option.splits desc.splits if_splits)
qed

lemma OrdinarySet_proto_other:
  assumes "OrdinarySet t k v = Inr t'" and "k \<noteq> ''__proto__''"
  shows "GetPrototypeOf t' = GetPrototypeOf t"
proof -
  from assms(1) obtain ps p where t: "t = Object OrdinaryObject ps p"
    by (auto dest: OrdinarySet_Inr_target)
  from assms show ?thesis
    unfolding t
    by (auto dest: find_prop_accessor split: option.splits desc.splits if_splits)
qed


section \<open>Lemmas on Object.assign\<close>

lemma assign_entries_settable:
  assumes "settable t"
    and "\<And>v. (''__proto__'', v) \<in> set kvs \<Longrightarrow> is_object v \<Longrightarrow> writable_chain v"
  shows "\<exists>t'. assign_entries t kvs = Inr t' \<and> settable t'"
  using assms
proof (induction kvs arbitrary: t)
  case Nil
  then show ?case by simp
next
  case (Cons kv kvs)
  obtain k v where kv: "kv = (k, v)" by (cases kv)
  have "\<exists>t1. OrdinarySet t k v = Inr t1 \<and> settable t1"
    using Cons.prems kv by (intro OrdinarySet_settable) auto
  then obtain t1 where t1: "OrdinarySet t k v = Inr t1" "settable t1" by blast
  have "\<exists>t'. assign_entries t1 kvs = Inr t' \<and> settable t'"
    using t1(2) Cons.prems(2) by (intro Cons.IH) auto
  with t1 kv show ?case by simp
qed

lemma assign_entries_own:
  assumes "assign_entries t kvs = Inr t'" and "distinct (map fst kvs)" and "k \<noteq> ''__proto__''"
  shows "own_value t' k = (case map_of kvs k of Some v \<Rightarrow> Some v | None \<Rightarrow> own_value t k)"
  using assms
proof (induction kvs arbitrary: t)
  case Nil
  then show ?case by simp
next
  case (Cons kv kvs)
  obtain k1 v1 where kv: "kv = (k1, v1)" by (cases kv)
  from Cons.prems(1) kv obtain t1 where t1: "OrdinarySet t k1 v1 = Inr t1"
    and rest: "assign_entries t1 kvs = Inr t'"
    by (auto split: sum.splits)
  from Cons.prems(2) kv have d: "distinct (map fst kvs)" and k1: "k1 \<notin> fst ` set kvs"
    by auto
  have ih: "own_value t' k = (case map_of kvs k of Some v \<Rightarrow> Some v | None \<Rightarrow> own_value t1 k)"
    using rest d Cons.prems(3) by (rule Cons.IH)
  show ?case
  proof (cases "k = k1")
    case True
    with k1 have "map_of kvs k = None" by (simp add: map_of_eq_None_iff)
    moreover have "own_value t1 k = Some v1"
      using t1 True Cons.prems(3) by (auto dest: OrdinarySet_own_same)
    ultimately show ?thesis using ih kv True by simp
  next
    case False
    then have "own_value t1 k = own_value t k"
      using t1 by (auto dest: OrdinarySet_own_other)
    with ih kv False show ?thesis by (simp split: option.splits)
  qed
qed


lemma own_enumerable_entries:
  "own_enumerable (Object kd ps p) k = map_of (enumerable_entries ps) k"
  by (simp add: map_of_enumerable_entries)

lemma Object_assign_settable:
  assumes "settable t" and "is_object bag"
    and "\<And>v. own_enumerable bag ''__proto__'' = Some v \<Longrightarrow> is_object v \<Longrightarrow> writable_chain v"
  shows "\<exists>t'. Object_assign t bag = Inr t' \<and> settable t'"
proof (cases bag)
  case (Object kd ps p)
  have "\<exists>t'. assign_entries t (enumerable_entries ps) = Inr t' \<and> settable t'"
  proof (rule assign_entries_settable [OF assms(1)])
    fix v
    assume "(''__proto__'', v) \<in> set (enumerable_entries ps)" and o: "is_object v"
    then have "map_of (enumerable_entries ps) ''__proto__'' = Some v"
      using distinct_enumerable_entries [of ps] by simp
    then have "own_enumerable bag ''__proto__'' = Some v"
      unfolding Object own_enumerable_entries .
    then show "writable_chain v" using o by (rule assms(3))
  qed
  with Object show ?thesis by simp
qed (use assms in auto)

lemma Object_assign_own:
  assumes "Object_assign t bag = Inr t'" and "k \<noteq> ''__proto__''"
  shows "own_value t' k =
           (case own_enumerable bag k of Some v \<Rightarrow> Some v | None \<Rightarrow> own_value t k)"
proof (cases bag)
  case (Object kd ps p)
  with assms(1) have "assign_entries t (enumerable_entries ps) = Inr t'" by simp
  then have "own_value t' k =
      (case map_of (enumerable_entries ps) k of Some v \<Rightarrow> Some v | None \<Rightarrow> own_value t k)"
    using distinct_enumerable_entries assms(2) by (rule assign_entries_own)
  then show ?thesis
    unfolding Object own_enumerable_entries .
qed (use assms in auto)


section \<open>Lemmas on the constructor\<close>

lemma OrdinaryGet_Object:
  "OrdinaryGet (Object kd ps p) k =
     (case own_value (Object kd ps p) k of
        Some v \<Rightarrow> v
      | None \<Rightarrow>
          (case find_prop p k of
             Some (DataDesc v w) \<Rightarrow> v
           | Some ProtoAccessor \<Rightarrow> p
           | None \<Rightarrow> Undefined))"
  by (simp add: OrdinaryGet_def split: option.splits desc.splits)

lemma OrdinaryGet_frame:
  assumes "OrdinarySet t k v = Inr t'" and "k' \<noteq> k" and "k \<noteq> ''__proto__''"
  shows "OrdinaryGet t' k' = OrdinaryGet t k'"
proof -
  obtain ps p where t: "t = Object OrdinaryObject ps p"
    using assms(1) by (auto dest: OrdinarySet_Inr_target)
  obtain ps' p' where t': "t' = Object OrdinaryObject ps' p'"
    using assms(1) by (auto dest: OrdinarySet_Inr_result)
  have o: "own_value t' k' = own_value t k'"
    using assms(1,2) by (rule OrdinarySet_own_other)
  have "GetPrototypeOf t' = GetPrototypeOf t"
    using assms(1,3) by (rule OrdinarySet_proto_other)
  then have pr: "p' = p"
    unfolding t t' by simp
  show ?thesis
    unfolding t t' pr using o [unfolded t t' pr] by (simp only: OrdinaryGet_Object)
qed



lemma writable_chain_instances:
  "writable_chain (SlackUser_instance u)" "writable_chain (SlackChannel_instance c)"
  by (simp_all add: SlackUser_instance_def SlackChannel_instance_def SlackUser_prototype_def
      SlackChannel_prototype_def function_value_def)

text \<open>What a returned context holds, in terms of the object that \<open>Object.assign\<close> left.\<close>

lemma SlackCommandContext_Inr:
  assumes "SlackCommandContext (Inr base) bag = Inr ctx"
  shows "\<exists>t1. Object_assign base bag = Inr t1 \<and>
           (\<forall>k. k \<noteq> ''user'' \<longrightarrow> k \<noteq> ''channel'' \<longrightarrow>
                  own_value ctx k = own_value t1 k \<and> OrdinaryGet ctx k = OrdinaryGet t1 k) \<and>
           GetPrototypeOf ctx = GetPrototypeOf t1 \<and>
           own_value ctx ''user'' =
             Some (SlackUser_instance
                     (SlackUser (OrdinaryGet ctx ''user_id'') (OrdinaryGet ctx ''user_name''))) \<and>
           own_value ctx ''channel'' =
             Some (SlackChannel_instance
                     (SlackChannel (OrdinaryGet ctx ''channel_id'')
                                   (OrdinaryGet ctx ''channel_name'')))"
proof -
  let ?U = "\<lambda>t. SlackUser_instance (SlackUser (OrdinaryGet t ''user_id'') (OrdinaryGet t ''user_name''))"
  let ?C = "\<lambda>t. SlackChannel_instance
                   (SlackChannel (OrdinaryGet t ''channel_id'') (OrdinaryGet t ''channel_name''))"
  from assms obtain t1 t2 where a: "Object_assign base bag = Inr t1"
    and u: "OrdinarySet t1 ''user'' (?U t1) = Inr t2"
    and c: "OrdinarySet t2 ''channel'' (?C t2) = Inr ctx"
    by (auto simp: SlackCommandContext_def bind_err_def split: sum.splits)
  have gu: "OrdinaryGet t2 k = OrdinaryGet t1 k" if "k \<noteq> ''user''" for k
    using u that by (intro OrdinaryGet_frame) auto
  have gc: "OrdinaryGet ctx k = OrdinaryGet t2 k" if "k \<noteq> ''channel''" for k
    using c that by (intro OrdinaryGet_frame) auto
  have ou: "own_value t2 k = own_value t1 k" if "k \<noteq> ''user''" for k
    using u that by (rule OrdinarySet_own_other)
  have oc: "own_value ctx k = own_value t2 k" if "k \<noteq> ''channel''" for k
    using c that by (rule OrdinarySet_own_other)
  have frame: "\<forall>k. k \<noteq> ''user'' \<longrightarrow> k \<noteq> ''channel'' \<longrightarrow>
                  own_value ctx k = own_value t1 k \<and> OrdinaryGet ctx k = OrdinaryGet t1 k"
    using gu gc ou oc by simp
  have proto: "GetPrototypeOf ctx = GetPrototypeOf t1"
    using OrdinarySet_proto_other [OF u] OrdinarySet_proto_other [OF c] by simp
  have "own_value t2 ''user'' = Some (?U t1)"
    using u by (rule OrdinarySet_own_same) simp
  then have "own_value ctx ''user'' = Some (?U t1)"
    using oc [of "''user''"] by simp
  moreover have "?U t1 = ?U ctx"
    using frame by simp
  ultimately have user: "own_value ctx ''user'' = Some (?U ctx)" by simp
  have "own_value ctx ''channel'' = Some (?C t2)"
    using c by (rule OrdinarySet_own_same) simp
  moreover have "?C t2 = ?C ctx"
    using gc by simp
  ultimately have channel: "own_value ctx ''channel'' = Some (?C ctx)" by simp
  from a frame proto user channel show ?thesis by blast
qed

lemma SlackCommandContext_returns:
  assumes "settable base" and "is_object bag"
    and "\<And>v. own_enumerable bag ''__proto__'' = Some v \<Longrightarrow> is_object v \<Longrightarrow> writable_chain v"
  shows "\<exists>ctx. SlackCommandContext (Inr base) bag = Inr ctx \<and> settable ctx"
proof -
  let ?U = "\<lambda>t. SlackUser_instance (SlackUser (OrdinaryGet t ''user_id'') (OrdinaryGet t ''user_name''))"
  let ?C = "\<lambda>t. SlackChannel_instance
                   (SlackChannel (OrdinaryGet t ''channel_id'') (OrdinaryGet t ''channel_name''))"
  obtain t1 where a: "Object_assign base bag = Inr t1" and s1: "settable t1"
    using Object_assign_settable [OF assms] by blast
  obtain t2 where u: "OrdinarySet t1 ''user'' (?U t1) = Inr t2" and s2: "settable t2"
    using OrdinarySet_settable [OF s1, of "''user''" "?U t1"] by auto
  obtain ctx where c: "OrdinarySet t2 ''channel'' (?C t2) = Inr ctx" and s3: "settable ctx"
    using OrdinarySet_settable [OF s2, of "''channel''" "?C t2"] by auto
  from a u c have "SlackCommandContext (Inr base) bag = Inr ctx"
    by (simp add: SlackCommandContext_def bind_err_def)
  with s3 show ?thesis by blast
qed


lemma settable_Object: "settable t \<Longrightarrow> \<exists>ps p. t = Object OrdinaryObject ps p"
  by (cases t) auto

lemma OrdinaryGet_own:
  assumes "settable t" and "own_value t k = Some v"
  shows "OrdinaryGet t k = v"
proof -
  from assms(1) obtain ps p where "t = Object OrdinaryObject ps p"
    by (auto dest: settable_Object)
  with assms(2) show ?thesis
    by (simp only: OrdinaryGet_Object) simp
qed

lemma settable_example_this: "settable example_this"
  by (simp add: example_this_def function_value_def empty_array_def)


section \<open>The mention codec\<close>

text \<open>
  Claim C5. For every id and name, the rendering of a user is exactly \<open><@\<close>, the id, \<open>|\<close>,
  the name, \<open>>\<close>, and the rendering of a channel is the same with \<open><#\<close>; the id and the
  name are not escaped. The user with id \<open>U123\<close> and name \<open>bob\<close> renders as \<open><@U123|bob>\<close>.
\<close>

theorem toString_exact:
  "SlackUser_toString (SlackUser i n) = ''<@'' @ i @ ''|'' @ n @ ''>'' \<and>
   SlackChannel_toString (SlackChannel i n) = ''<#'' @ i @ ''|'' @ n @ ''>'' \<and>
   SlackUser_toString (SlackUser ''U123'' ''bob'') = ''<@U123|bob>''"
  by (simp add: SlackUser_toString_def SlackChannel_toString_def)

text \<open>
  Claim C2. For every input text, \<open>cast\<close> returns the mention with id \<open>i\<close> and name \<open>n\<close>
  if and only if the text is exactly \<open><\<close>, the sigil of the class (\<open>@\<close> for a user, \<open>#\<close>
  for a channel), \<open>i\<close>, \<open>|\<close>, \<open>n\<close>, \<open>>\<close>, where \<open>i\<close> is not empty and has no \<open>|\<close>, and \<open>n\<close>
  is not empty and has no \<open>>\<close>. In particular an empty id or name, a token inside a
  longer text and a token with the sigil of the other class are rejected.
\<close>

theorem cast_iff_token:
  "(SlackUser_cast text = Inr (SlackUser i n) \<longleftrightarrow>
      text = ''<@'' @ i @ ''|'' @ n @ ''>'' \<and>
      i \<noteq> [] \<and> CHR ''|'' \<notin> set i \<and> n \<noteq> [] \<and> CHR ''>'' \<notin> set n) \<and>
   (SlackChannel_cast text = Inr (SlackChannel i n) \<longleftrightarrow>
      text = ''<#'' @ i @ ''|'' @ n @ ''>'' \<and>
      i \<noteq> [] \<and> CHR ''|'' \<notin> set i \<and> n \<noteq> [] \<and> CHR ''>'' \<notin> set n) \<and>
   isl (SlackUser_cast ''<@|alice>'') \<and>
   isl (SlackUser_cast ''<@U1|>'') \<and>
   isl (SlackUser_cast ''prefix<@U1|alice>'') \<and>
   isl (SlackUser_cast ''<@U1|alice>suffix'') \<and>
   isl (SlackUser_cast ''<#C1|general>'') \<and>
   isl (SlackChannel_cast ''<@U1|alice>'') \<and>
   isl (SlackUser_cast '''')"
proof -
  have iffs:
    "(SlackUser_cast text = Inr (SlackUser i n) \<longleftrightarrow>
        text = ''<@'' @ i @ ''|'' @ n @ ''>'' \<and>
        i \<noteq> [] \<and> CHR ''|'' \<notin> set i \<and> n \<noteq> [] \<and> CHR ''>'' \<notin> set n) \<and>
     (SlackChannel_cast text = Inr (SlackChannel i n) \<longleftrightarrow>
        text = ''<#'' @ i @ ''|'' @ n @ ''>'' \<and>
        i \<noteq> [] \<and> CHR ''|'' \<notin> set i \<and> n \<noteq> [] \<and> CHR ''>'' \<notin> set n)"
    unfolding SlackUser_cast_Inr_iff SlackChannel_cast_Inr_iff by auto
  have e1: "isl (SlackUser_cast ''<@|alice>'')" by code_simp
  have e2: "isl (SlackUser_cast ''<@U1|>'')" by code_simp
  have e3: "isl (SlackUser_cast ''prefix<@U1|alice>'')" by code_simp
  have e4: "isl (SlackUser_cast ''<@U1|alice>suffix'')" by code_simp
  have e5: "isl (SlackUser_cast ''<#C1|general>'')" by code_simp
  have e6: "isl (SlackChannel_cast ''<@U1|alice>'')" by code_simp
  have e7: "isl (SlackUser_cast '''')" by code_simp
  from iffs e1 e2 e3 e4 e5 e6 e7 show ?thesis by blast
qed

text \<open>
  Claim C10. The name may contain \<open>|\<close>, and the id may contain \<open><\<close> and \<open>>\<close>: for a text
  \<open><\<close>, sigil, \<open>A\<close>, \<open>|\<close>, \<open>B\<close>, \<open>>\<close> with \<open>A\<close> not empty and free of \<open>|\<close>, and \<open>B\<close> not empty
  and free of \<open>>\<close>, \<open>cast\<close> returns the mention with id \<open>A\<close> and name \<open>B\<close>.
\<close>

theorem cast_accepts_delimiters_inside:
  assumes "A \<noteq> []" and "CHR ''|'' \<notin> set A" and "B \<noteq> []" and "CHR ''>'' \<notin> set B"
  shows "SlackUser_cast (''<@'' @ A @ ''|'' @ B @ ''>'') = Inr (SlackUser A B) \<and>
         SlackChannel_cast (''<#'' @ A @ ''|'' @ B @ ''>'') = Inr (SlackChannel A B)"
  by (intro conjI SlackUser_cast_token SlackChannel_cast_token assms)

theorem cast_accepts_delimiters_inside_witness:
  "SlackUser_cast ''<@U1|a|b>'' = Inr (SlackUser ''U1'' ''a|b'') \<and>
   SlackChannel_cast ''<#U1|a|b>'' = Inr (SlackChannel ''U1'' ''a|b'') \<and>
   SlackUser_cast ''<@<U>1|a|b>'' = Inr (SlackUser ''<U>1'' ''a|b'') \<and>
   SlackChannel_cast ''<#<U>1|a|b>'' = Inr (SlackChannel ''<U>1'' ''a|b'')"
  using cast_accepts_delimiters_inside [of "''U1''" "''a|b''"]
    cast_accepts_delimiters_inside [of "''<U>1''" "''a|b''"]
  by simp

text \<open>
  Claim C1, as the code has it. For every id and name that are not empty and contain none
  of \<open><\<close>, \<open>>\<close> and \<open>|\<close>, casting the rendering of a mention gives the mention back.
\<close>

theorem cast_toString_roundtrip:
  assumes "i \<noteq> []" and "n \<noteq> []"
    and "\<forall>c \<in> set i \<union> set n. c \<noteq> CHR ''<'' \<and> c \<noteq> CHR ''>'' \<and> c \<noteq> CHR ''|''"
  shows "SlackUser_cast (SlackUser_toString (SlackUser i n)) = Inr (SlackUser i n) \<and>
         SlackChannel_cast (SlackChannel_toString (SlackChannel i n)) = Inr (SlackChannel i n)"
proof -
  have i: "CHR ''|'' \<notin> set i" and n: "CHR ''>'' \<notin> set n"
    using assms(3) by auto
  have u: "SlackUser_toString (SlackUser i n) = ''<@'' @ i @ ''|'' @ n @ ''>''"
    by (simp add: SlackUser_toString_def)
  have c: "SlackChannel_toString (SlackChannel i n) = ''<#'' @ i @ ''|'' @ n @ ''>''"
    by (simp add: SlackChannel_toString_def)
  show ?thesis
    unfolding u c by (intro conjI SlackUser_cast_token SlackChannel_cast_token assms(1,2) i n)
qed

theorem cast_toString_roundtrip_witness:
  "SlackUser_cast (SlackUser_toString (SlackUser ''U123'' ''bob'')) = Inr (SlackUser ''U123'' ''bob'') \<and>
   SlackChannel_cast (SlackChannel_toString (SlackChannel ''C2'' ''eng'')) = Inr (SlackChannel ''C2'' ''eng'')"
  using cast_toString_roundtrip [of "''U123''" "''bob''"] cast_toString_roundtrip [of "''C2''" "''eng''"]
  by simp

text \<open>The claim as the specification states it, without the condition that id and name
  are not empty, fails for the empty id: its rendering \<open><@|bob>\<close> is not a token.\<close>

theorem cast_toString_roundtrip_counterexample:
  "CHR ''<'' \<notin> set ('''' @ ''bob'') \<and> CHR ''>'' \<notin> set ('''' @ ''bob'') \<and>
   CHR ''|'' \<notin> set ('''' @ ''bob'') \<and>
   SlackUser_toString (SlackUser '''' ''bob'') = ''<@|bob>'' \<and>
   SlackUser_cast (SlackUser_toString (SlackUser '''' ''bob''))
     = Inl (ExpectedError (CHR 0x22 # ''<@|bob>'' @ CHR 0x22 # '' is not a valid escaped slack user'')) \<and>
   SlackUser_cast (SlackUser_toString (SlackUser '''' ''bob'')) \<noteq> Inr (SlackUser '''' ''bob'')"
proof -
  have a: "SlackUser_toString (SlackUser '''' ''bob'') = ''<@|bob>''"
    by (simp add: SlackUser_toString_def)
  have b: "SlackUser_cast ''<@|bob>''
     = Inl (ExpectedError (CHR 0x22 # ''<@|bob>'' @ CHR 0x22 # '' is not a valid escaped slack user''))"
    by code_simp
  show ?thesis
    unfolding a b by simp
qed



section \<open>The response recognizer\<close>

text \<open>
  Claim C3. The recognizer returns \<open>true\<close> if and only if the value is structured (an
  object that is not a function, \<open>null\<close> apart) and its \<open>text\<close> property is present and a
  string, or its \<open>attachments\<close> property is present and an array; a property is present
  when the object or an object of its prototype chain has it. It returns a value for
  every argument, and a value that counts as true only when it is \<open>true\<close>. So
  \<open>{text: "hello"}\<close>, \<open>{attachments: []}\<close> and \<open>{attachments: [{text: "x"}]}\<close> are
  recognized, and \<open>{}\<close>, \<open>{username: "bot"}\<close>, \<open>null\<close>, the string \<open>"hello"\<close>, \<open>{text: 5}\<close> and
  a function with the property \<open>text\<close> are not.
\<close>

theorem isSlackCommandResponse_recognizes:
  "(isSlackCommandResponse v = Inr (Bool True) \<longleftrightarrow>
      structured v \<and>
      ((\<exists>s w. find_prop v ''text'' = Some (DataDesc (Str s) w)) \<or>
       (\<exists>ps p w. find_prop v ''attachments'' = Some (DataDesc (Object ArrayObject ps p) w)))) \<and>
   (\<exists>r. isSlackCommandResponse v = Inr r \<and> ToBoolean r = (r = Bool True)) \<and>
   isSlackCommandResponse (parsed_object [(''text'', Str ''hello'')]) = Inr (Bool True) \<and>
   isSlackCommandResponse (parsed_object [(''attachments'', empty_array)]) = Inr (Bool True) \<and>
   isSlackCommandResponse
     (parsed_object
        [(''attachments'',
          Object ArrayObject
            [(''0'', Data (parsed_object [(''text'', Str ''x'')]) True True),
             (''length'', Data (Num 0x3FF0000000000000) True False)]
            Array_prototype)])
     = Inr (Bool True) \<and>
   isSlackCommandResponse (Object OrdinaryObject [] (parsed_object [(''text'', Str ''hello'')]))
     = Inr (Bool True) \<and>
   isSlackCommandResponse (parsed_object []) = Inr (Bool False) \<and>
   isSlackCommandResponse (parsed_object [(''username'', Str ''bot'')]) = Inr (Bool False) \<and>
   isSlackCommandResponse Null = Inr Null \<and>
   isSlackCommandResponse (Str ''hello'') = Inr (Bool False) \<and>
   isSlackCommandResponse (parsed_object [(''text'', Num 0x4014000000000000)]) = Inr (Bool False) \<and>
   isSlackCommandResponse
     (Object FunctionObject [(''text'', Data (Str ''hello'') True True)] ObjectPrototype)
     = Inr (Bool False)"
proof -
  obtain r where r: "isSlackCommandResponse v = Inr r"
    using isSlackCommandResponse_no_error by blast
  then have t: "ToBoolean r = (r = Bool True)"
    by (rule isSlackCommandResponse_truthy_is_true)
  have e1: "isSlackCommandResponse (parsed_object [(''text'', Str ''hello'')]) = Inr (Bool True)"
    by code_simp
  have e2: "isSlackCommandResponse (parsed_object [(''attachments'', empty_array)]) = Inr (Bool True)"
    by code_simp
  have e3: "isSlackCommandResponse
     (parsed_object
        [(''attachments'',
          Object ArrayObject
            [(''0'', Data (parsed_object [(''text'', Str ''x'')]) True True),
             (''length'', Data (Num 0x3FF0000000000000) True False)]
            Array_prototype)])
     = Inr (Bool True)"
    by code_simp
  have e4: "isSlackCommandResponse (Object OrdinaryObject [] (parsed_object [(''text'', Str ''hello'')]))
     = Inr (Bool True)"
    by code_simp
  have e5: "isSlackCommandResponse (parsed_object []) = Inr (Bool False)"
    by code_simp
  have e6: "isSlackCommandResponse (parsed_object [(''username'', Str ''bot'')]) = Inr (Bool False)"
    by code_simp
  have e7: "isSlackCommandResponse Null = Inr Null"
    by code_simp
  have e8: "isSlackCommandResponse (Str ''hello'') = Inr (Bool False)"
    by code_simp
  have e9: "isSlackCommandResponse (parsed_object [(''text'', Num 0x4014000000000000)]) = Inr (Bool False)"
    by code_simp
  have e10: "isSlackCommandResponse
     (Object FunctionObject [(''text'', Data (Str ''hello'') True True)] ObjectPrototype)
     = Inr (Bool False)"
    by code_simp
  from isSlackCommandResponse_true_iff [of v] r t e1 e2 e3 e4 e5 e6 e7 e8 e9 e10 show ?thesis
    by blast
qed

text \<open>
  Claim C8 says that the recognizer returns the boolean \<open>true\<close> or the boolean \<open>false\<close> for
  every value, and \<open>false\<close> for \<open>null\<close>. The function returns its argument when the argument
  counts as false: \<open>null\<close> for \<open>null\<close>, \<open>undefined\<close> for \<open>undefined\<close>, the empty string for
  the empty string, and the number for \<open>+0\<close>, \<open>-0\<close> and \<open>NaN\<close>.
\<close>

theorem isSlackCommandResponse_returns_falsy_argument:
  "isSlackCommandResponse Null = Inr Null \<and>
   isSlackCommandResponse Undefined = Inr Undefined \<and>
   isSlackCommandResponse (Str '''') = Inr (Str '''') \<and>
   isSlackCommandResponse (Num 0) = Inr (Num 0) \<and>
   isSlackCommandResponse (Num 0x8000000000000000) = Inr (Num 0x8000000000000000) \<and>
   isSlackCommandResponse (Num 0x7FF8000000000000) = Inr (Num 0x7FF8000000000000)"
  by (simp add: isSlackCommandResponse_value number_is_zero_def number_is_nan_def)

section \<open>The command context\<close>







text \<open>
  Claim C9, as the code has it. The constructor copies the own enumerable entries of the
  bag onto the context, the declared fields and the other keys alike, over what the
  base constructor has set: in a context that the constructor returns, a key other than
  \<open>user\<close>, \<open>channel\<close> and \<open>__proto__\<close> is an own property with the value of the bag's entry
  when the bag has one, and is as the base constructor left it otherwise; \<open>user\<close> and
  \<open>channel\<close> are the derived mentions, in place of an entry of the bag with one of these
  names. The constructor returns under the conditions of claim C7.
\<close>

theorem SlackCommandContext_copies_every_key:
  "(SlackCommandContext (Inr base) bag = Inr ctx \<longrightarrow>
      (k \<notin> {''user'', ''channel'', ''__proto__''} \<longrightarrow>
         own_value ctx k =
           (case own_enumerable bag k of Some x \<Rightarrow> Some x | None \<Rightarrow> own_value base k)) \<and>
      own_value ctx ''user'' =
        Some (SlackUser_instance
                (SlackUser (OrdinaryGet ctx ''user_id'') (OrdinaryGet ctx ''user_name''))) \<and>
      own_value ctx ''channel'' =
        Some (SlackChannel_instance
                (SlackChannel (OrdinaryGet ctx ''channel_id'')
                              (OrdinaryGet ctx ''channel_name'')))) \<and>
   (settable base \<and> is_object bag \<and>
    (\<forall>u. own_enumerable bag ''__proto__'' = Some u \<longrightarrow> is_object u \<longrightarrow> writable_chain u) \<longrightarrow>
    (\<exists>c. SlackCommandContext (Inr base) bag = Inr c))"
proof -
  have res: "(k \<notin> {''user'', ''channel'', ''__proto__''} \<longrightarrow>
         own_value ctx k =
           (case own_enumerable bag k of Some x \<Rightarrow> Some x | None \<Rightarrow> own_value base k)) \<and>
      own_value ctx ''user'' =
        Some (SlackUser_instance
                (SlackUser (OrdinaryGet ctx ''user_id'') (OrdinaryGet ctx ''user_name''))) \<and>
      own_value ctx ''channel'' =
        Some (SlackChannel_instance
                (SlackChannel (OrdinaryGet ctx ''channel_id'')
                              (OrdinaryGet ctx ''channel_name'')))"
    if ctx: "SlackCommandContext (Inr base) bag = Inr ctx"
  proof -
    from SlackCommandContext_Inr [OF ctx] obtain t1 where a: "Object_assign base bag = Inr t1"
      and frame: "\<And>k. k \<noteq> ''user'' \<Longrightarrow> k \<noteq> ''channel'' \<Longrightarrow> own_value ctx k = own_value t1 k"
      and user: "own_value ctx ''user'' =
             Some (SlackUser_instance
                     (SlackUser (OrdinaryGet ctx ''user_id'') (OrdinaryGet ctx ''user_name'')))"
      and channel: "own_value ctx ''channel'' =
             Some (SlackChannel_instance
                     (SlackChannel (OrdinaryGet ctx ''channel_id'')
                                   (OrdinaryGet ctx ''channel_name'')))"
      by blast
    have "own_value ctx k =
            (case own_enumerable bag k of Some x \<Rightarrow> Some x | None \<Rightarrow> own_value base k)"
      if "k \<notin> {''user'', ''channel'', ''__proto__''}"
      using that frame [of k] Object_assign_own [OF a, of k] by simp
    with user channel show ?thesis by blast
  qed
  have ret: "\<exists>c. SlackCommandContext (Inr base) bag = Inr c"
    if "settable base" "is_object bag"
      "\<forall>u. own_enumerable bag ''__proto__'' = Some u \<longrightarrow> is_object u \<longrightarrow> writable_chain u"
    using SlackCommandContext_returns [OF that(1,2)] that(3) by blast
  from res ret show ?thesis by blast
qed

theorem SlackCommandContext_copies_every_key_witness:
  "\<exists>ctx. SlackCommandContext (Inr example_this)
            (parsed_object
               [(''token'', Str ''t''), (''foo'', Str ''bar''), (''cwd'', Str ''/''),
                (''user'', Str ''u'')]) = Inr ctx \<and>
     own_value ctx ''token'' = Some (Str ''t'') \<and>
     own_value ctx ''foo'' = Some (Str ''bar'') \<and>
     own_value ctx ''cwd'' = Some (Str ''/'') \<and>
     own_value ctx ''commands'' = Some empty_array \<and>
     own_value ctx ''user'' = Some (SlackUser_instance (SlackUser Undefined Undefined))"
proof -
  let ?bag = "parsed_object
               [(''token'', Str ''t''), (''foo'', Str ''bar''), (''cwd'', Str ''/''),
                (''user'', Str ''u'')]"
  have o: "is_object ?bag"
    by (simp add: parsed_object_def)
  have w: "\<forall>u. own_enumerable ?bag ''__proto__'' = Some u \<longrightarrow> is_object u \<longrightarrow> writable_chain u"
    by (simp add: parsed_object_def)
  obtain ctx where ctx: "SlackCommandContext (Inr example_this) ?bag = Inr ctx"
    using SlackCommandContext_copies_every_key [of example_this ?bag] settable_example_this o w
    by blast
  have own: "own_value ctx k =
           (case own_enumerable ?bag k of Some x \<Rightarrow> Some x | None \<Rightarrow> own_value example_this k)"
    if "k \<notin> {''user'', ''channel'', ''__proto__''}" for k
    using SlackCommandContext_copies_every_key [of example_this ?bag ctx k] ctx that by blast
  have v: "own_value ctx ''token'' = Some (Str ''t'')" "own_value ctx ''foo'' = Some (Str ''bar'')"
    "own_value ctx ''cwd'' = Some (Str ''/'')" "own_value ctx ''commands'' = Some empty_array"
    by (simp_all add: own parsed_object_def example_this_def)
  have "ctx_field (SlackCommandContext (Inr example_this) ?bag) ''user''
          = Inr (SlackUser_instance (SlackUser Undefined Undefined))"
    by code_simp
  moreover have s: "settable ctx"
    using SlackCommandContext_returns [OF settable_example_this o] w ctx by auto
  moreover have "own_value ctx ''user'' =
        Some (SlackUser_instance
                (SlackUser (OrdinaryGet ctx ''user_id'') (OrdinaryGet ctx ''user_name'')))"
    using SlackCommandContext_copies_every_key [of example_this ?bag ctx] ctx by blast
  ultimately have "own_value ctx ''user'' = Some (SlackUser_instance (SlackUser Undefined Undefined))"
    using ctx OrdinaryGet_own [OF s, of "''user''"]
    by (auto simp: ctx_field_def bind_err_def GetV_def dest: settable_Object)
  with ctx v show ?thesis by blast
qed

text \<open>
  The claim as the specification states it, that keys beyond the declared fields are
  ignored, fails for a bag with the key \<open>foo\<close>: the context has the property \<open>foo\<close>, which
  it has not for the empty bag. An entry \<open>__proto__\<close> that holds a string is the one entry
  that leaves no property: the setter of \<open>Object.prototype\<close> drops it.
\<close>

theorem SlackCommandContext_ignores_extra_keys_counterexample:
  "''foo'' \<notin> set field_names \<and>
   ctx_field (SlackCommandContext (Inr example_this) (parsed_object [(''foo'', Str ''bar'')])) ''foo''
     = Inr (Str ''bar'') \<and>
   ctx_field (SlackCommandContext (Inr example_this) (parsed_object [])) ''foo'' = Inr Undefined \<and>
   SlackCommandContext (Inr example_this) (parsed_object [(''__proto__'', Str ''x'')])
     = SlackCommandContext (Inr example_this) (parsed_object [])"
proof -
  have a: "''foo'' \<notin> set field_names"
    by (simp add: field_names_def)
  have b: "ctx_field (SlackCommandContext (Inr example_this) (parsed_object [(''foo'', Str ''bar'')])) ''foo''
     = Inr (Str ''bar'')"
    by code_simp
  have c: "ctx_field (SlackCommandContext (Inr example_this) (parsed_object [])) ''foo'' = Inr Undefined"
    by code_simp
  have d: "SlackCommandContext (Inr example_this) (parsed_object [(''__proto__'', Str ''x'')])
     = SlackCommandContext (Inr example_this) (parsed_object [])"
    by code_simp
  from a b c d show ?thesis by blast
qed

end
